theory Spec2Isabelle
  imports Main "HOL-Library.AList"
begin

section \<open>Call signalling and presence layer of the server entrypoint\<close>

text \<open>
  The model follows the socket handlers of the process entrypoint
  (\<^verbatim>\<open>io.on('connection', ...)\<close>). The three process-wide maps
  \<^verbatim>\<open>onlineUsers\<close>, \<^verbatim>\<open>activeCalls\<close> and \<^verbatim>\<open>callTimeouts\<close> are fields of one
  server state. Every handler is one turn of the event loop. An \<^verbatim>\<open>async\<close>
  handler that reaches an \<^verbatim>\<open>await Message.create(...)\<close> stops there: what is left
  of it is stored as a continuation and runs in a later turn, when the write
  settles (successfully or not). Other events may be processed in between.
\<close>

subsection \<open>Data\<close>

type_synonym userId = string
type_synonym sockId = string
type_synonym callId = string
type_synonym time = int
type_synonym timer = nat

text \<open>Decimal rendering of \<^verbatim>\<open>Date.now()\<close> inside the template literal of the call id.\<close>

definition digit_char :: "nat \<Rightarrow> char" where
  "digit_char n = ''0123456789'' ! n"

fun dec_nat :: "nat \<Rightarrow> string" where
  "dec_nat n = (if n < 10 then [digit_char n] else dec_nat (n div 10) @ [digit_char (n mod 10)])"

declare dec_nat.simps [simp del]

definition dec_int :: "int \<Rightarrow> string" where
  "dec_int i = (if i < 0 then CHR ''-'' # dec_nat (nat (- i)) else dec_nat (nat i))"

text \<open>\<^verbatim>\<open>`call_${callerId}_${receiverId}_${Date.now()}`\<close>\<close>

definition mk_callId :: "userId \<Rightarrow> userId \<Rightarrow> time \<Rightarrow> callId" where
  "mk_callId callerId receiverId now =
     ''call_'' @ callerId @ ''_'' @ receiverId @ ''_'' @ dec_int now"

datatype call_status = Ringing | Active

text \<open>
  A call session, as stored in \<^verbatim>\<open>activeCalls\<close>. \<^verbatim>\<open>acceptedAt\<close> is absent until
  the accept handler sets it. The source's field \<^verbatim>\<open>id\<close> is \<open>call_id\<close> here.
\<close>

record call =
  call_id :: callId
  caller :: userId
  receiver :: userId
  callerSocketId :: sockId
  receiverSocketId :: sockId
  status :: call_status
  startedAt :: time
  callerInfo :: string
  acceptedAt :: "time option"

text \<open>
  The value of \<^verbatim>\<open>call.status === 'active' && call.acceptedAt\<close>: JavaScript's
  \<^verbatim>\<open>&&\<close> returns its left operand when that is falsy and its right operand
  otherwise, so the value is \<^verbatim>\<open>false\<close>, \<^verbatim>\<open>undefined\<close> or the Date object.
\<close>

datatype js_flag = JFalse | JUndefined | JDate time

fun truthy :: "js_flag \<Rightarrow> bool" where
  "truthy JFalse = False"
| "truthy JUndefined = False"
| "truthy (JDate t) = True"

datatype call_outcome = Completed | Missed

record call_data =
  duration :: int
  callType :: string
  outcome :: call_outcome
  timestamp :: time

text \<open>The document handed to \<^verbatim>\<open>Message.create\<close>; \<open>outcome\<close> is \<^verbatim>\<open>callData.status\<close>.\<close>

record message =
  sender :: userId
  msg_receiver :: userId
  msg_type :: string
  content :: string
  callData :: call_data
  msg_status :: string

datatype direction = Outgoing | Incoming

text \<open>The events the server emits, one constructor per event name and payload shape.\<close>

datatype payload =
    UserStatus userId bool
  | CallError string
  | CallInitiated callId userId
  | CallIncoming callId string
  | CallAccepted callId time
  | CallDeclined callId string
  | CallMissed callId string direction
  | CallEnded callId int js_flag "userId option"
  | CallEndedDisconnect callId int js_flag string
  | WebrtcOffer callId "userId option" string
  | WebrtcAnswer callId "userId option" string
  | WebrtcIce callId "userId option" string

text \<open>
  \<^verbatim>\<open>socket.emit\<close> reaches the handler's own socket, \<^verbatim>\<open>io.to(id).emit\<close> the room
  of a socket id, \<^verbatim>\<open>io.emit\<close> every connected client. The rooms that
  \<^verbatim>\<open>socket.join(userId)\<close> creates are never addressed by these handlers and are
  left out, as is the console log.
\<close>

datatype target = Socket sockId | Room sockId | All

text \<open>
  What is left of an \<^verbatim>\<open>async\<close> handler stopped at an \<^verbatim>\<open>await Message.create\<close>.
  The continuation keeps the constants the handler computed before the await, the
  \<^verbatim>\<open>call\<close> object it looked up (after the await only fields that are never reassigned
  are read from it) and the document whose write is in flight.
\<close>

datatype continuation =
    EndFirst sockId callId call int js_flag call_outcome message
  | EndSecond sockId callId call int js_flag message
  | MissedFirst callId call message
  | MissedSecond callId call message

text \<open>
  The server state. \<open>socketUserId\<close> is the property \<^verbatim>\<open>socket.userId\<close> of each socket
  object; \<open>armed\<close> holds the runtime's pending \<^verbatim>\<open>setTimeout\<close> callbacks (each closed
  over its call id, with its delay in milliseconds); \<open>messages\<close> is the Message
  collection; \<open>emitted\<close> the events sent so far, oldest first; \<open>awaiting\<close> the handlers
  stopped at an await, by invocation number. \<^verbatim>\<open>activeCalls\<close> is kept in insertion
  order, as a JavaScript Map iterates.
\<close>

record server =
  onlineUsers :: "userId \<rightharpoonup> sockId"
  activeCalls :: "(callId \<times> call) list"
  callTimeouts :: "callId \<rightharpoonup> timer"
  socketUserId :: "sockId \<rightharpoonup> userId"
  armed :: "timer \<rightharpoonup> callId \<times> int"
  nextTimer :: timer
  messages :: "message list"
  emitted :: "(target \<times> payload) list"
  awaiting :: "nat \<rightharpoonup> continuation"
  nextTask :: nat

definition init :: server where
  "init = \<lparr> onlineUsers = Map.empty, activeCalls = [], callTimeouts = Map.empty,
            socketUserId = Map.empty, armed = Map.empty, nextTimer = 0, messages = [],
            emitted = [], awaiting = Map.empty, nextTask = 0 \<rparr>"

subsection \<open>Helpers\<close>

definition emit :: "target \<Rightarrow> payload \<Rightarrow> server \<Rightarrow> server" where
  "emit t p s = s\<lparr>emitted := emitted s @ [(t, p)]\<rparr>"

text \<open>
  \<^verbatim>\<open>const timeout = callTimeouts.get(callId);
  if (timeout) { clearTimeout(timeout); callTimeouts.delete(callId); }\<close>
\<close>

definition clear_timeout :: "callId \<Rightarrow> server \<Rightarrow> server" where
  "clear_timeout callId s =
     (case callTimeouts s callId of
        None \<Rightarrow> s
      | Some h \<Rightarrow> s\<lparr>armed := (armed s)(h := None),
                    callTimeouts := (callTimeouts s)(callId := None)\<rparr>)"

definition missedCallDelay :: int where
  "missedCallDelay = 30000"

definition call_message :: "userId \<Rightarrow> userId \<Rightarrow> int \<Rightarrow> call_outcome \<Rightarrow> time \<Rightarrow> message" where
  "call_message from to d st now =
     \<lparr> sender = from, msg_receiver = to, msg_type = ''call'', content = '''',
       callData = \<lparr> duration = d, callType = ''audio'', outcome = st, timestamp = now \<rparr>,
       msg_status = ''delivered'' \<rparr>"

definition was_accepted :: "call \<Rightarrow> js_flag" where
  "was_accepted c =
     (if status c = Active
      then (case acceptedAt c of None \<Rightarrow> JUndefined | Some a \<Rightarrow> JDate a)
      else JFalse)"

text \<open>\<^verbatim>\<open>call.acceptedAt ? Math.floor((new Date() - call.acceptedAt) / 1000) : 0\<close>\<close>

definition elapsed_seconds :: "call \<Rightarrow> time \<Rightarrow> int" where
  "elapsed_seconds c now =
     (case acceptedAt c of None \<Rightarrow> 0 | Some a \<Rightarrow> (now - a) div 1000)"

subsection \<open>Handlers\<close>

text \<open>\<^verbatim>\<open>socket.on('user:online', ...)\<close>; the empty string is the falsy user id.\<close>

definition on_user_online :: "sockId \<Rightarrow> userId \<Rightarrow> server \<Rightarrow> server" where
  "on_user_online sock userId s =
     (if userId = '''' then s
      else emit All (UserStatus userId True)
             (s\<lparr>socketUserId := (socketUserId s)(sock \<mapsto> userId),
                onlineUsers := (onlineUsers s)(userId \<mapsto> sock)\<rparr>))"

text \<open>
  \<^verbatim>\<open>socket.on('audio:call:initiate', ...)\<close>. \<^verbatim>\<open>Date.now()\<close> and the
  \<^verbatim>\<open>new Date()\<close> of \<^verbatim>\<open>startedAt\<close> are read in the same turn and are one
  \<open>now\<close> here. The timer is a fresh handle.
\<close>

definition on_initiate :: "sockId \<Rightarrow> userId \<Rightarrow> userId \<Rightarrow> string \<Rightarrow> time \<Rightarrow> server \<Rightarrow> server" where
  "on_initiate sock receiverId callerId info now s =
     (let callId = mk_callId callerId receiverId now in
      case onlineUsers s receiverId of
        None \<Rightarrow> emit (Socket sock) (CallError ''User is offline'') s
      | Some receiverSock \<Rightarrow>
          if receiverSock = '''' then emit (Socket sock) (CallError ''User is offline'') s
          else
            let session = \<lparr> call_id = callId, caller = callerId, receiver = receiverId,
                            callerSocketId = sock, receiverSocketId = receiverSock,
                            status = Ringing, startedAt = now, callerInfo = info,
                            acceptedAt = None \<rparr>;
                h = nextTimer s;
                s1 = s\<lparr>activeCalls := AList.update callId session (activeCalls s),
                       armed := (armed s)(h \<mapsto> (callId, missedCallDelay)),
                       nextTimer := Suc h,
                       callTimeouts := (callTimeouts s)(callId \<mapsto> h)\<rparr>
            in emit (Room receiverSock) (CallIncoming callId info)
                 (emit (Socket sock) (CallInitiated callId receiverId) s1))"

text \<open>\<^verbatim>\<open>socket.on('audio:call:accept', ...)\<close>\<close>

definition on_accept :: "sockId \<Rightarrow> callId \<Rightarrow> time \<Rightarrow> server \<Rightarrow> server" where
  "on_accept sock callId now s =
     (case map_of (activeCalls s) callId of
        None \<Rightarrow> s
      | Some c \<Rightarrow>
          let s1 = clear_timeout callId s;
              c' = c\<lparr>status := Active, acceptedAt := Some now\<rparr>;
              s2 = s1\<lparr>activeCalls := AList.update callId c' (activeCalls s1)\<rparr>
          in emit (Room (receiverSocketId c')) (CallAccepted callId now)
               (emit (Room (callerSocketId c')) (CallAccepted callId now) s2))"

text \<open>
  \<^verbatim>\<open>socket.on('audio:call:decline', ...)\<close>; \<^verbatim>\<open>reason || 'Call declined'\<close> takes the
  default for a missing or empty reason.
\<close>

definition decline_reason :: "string option \<Rightarrow> string" where
  "decline_reason r = (case r of None \<Rightarrow> ''Call declined''
                       | Some x \<Rightarrow> if x = '''' then ''Call declined'' else x)"

definition on_decline :: "sockId \<Rightarrow> callId \<Rightarrow> string option \<Rightarrow> server \<Rightarrow> server" where
  "on_decline sock callId reason s =
     (case map_of (activeCalls s) callId of
        None \<Rightarrow> s
      | Some c \<Rightarrow>
          let s1 = clear_timeout callId s;
              s2 = emit (Room (callerSocketId c)) (CallDeclined callId (decline_reason reason)) s1
          in s2\<lparr>activeCalls := AList.delete callId (activeCalls s2)\<rparr>)"

text \<open>
  \<^verbatim>\<open>socket.on('audio:call:end', ...)\<close>, up to its first await. The client's
  \<^verbatim>\<open>duration\<close> is an integer or undefined (\<open>None\<close>).
\<close>

definition final_duration :: "int option \<Rightarrow> call \<Rightarrow> time \<Rightarrow> int" where
  "final_duration d c now = (case d of Some x \<Rightarrow> x | None \<Rightarrow> elapsed_seconds c now)"

definition call_outcome_of :: "js_flag \<Rightarrow> int \<Rightarrow> call_outcome" where
  "call_outcome_of wasAccepted finalDuration =
     (if truthy wasAccepted \<and> finalDuration > 0 then Completed else Missed)"

definition suspend :: "continuation \<Rightarrow> server \<Rightarrow> server" where
  "suspend k s = s\<lparr>awaiting := (awaiting s)(nextTask s \<mapsto> k), nextTask := Suc (nextTask s)\<rparr>"

definition on_end :: "sockId \<Rightarrow> callId \<Rightarrow> int option \<Rightarrow> time \<Rightarrow> server \<Rightarrow> server" where
  "on_end sock callId d now s =
     (case map_of (activeCalls s) callId of
        None \<Rightarrow> s
      | Some c \<Rightarrow>
          let s1 = clear_timeout callId s;
              finalDuration = final_duration d c now;
              wasAccepted = was_accepted c;
              callStatus = call_outcome_of wasAccepted finalDuration
          in suspend (EndFirst sock callId c finalDuration wasAccepted callStatus
                        (call_message (caller c) (receiver c) finalDuration callStatus now)) s1)"

text \<open>The end handler after its try/catch: both emits, then \<^verbatim>\<open>activeCalls.delete\<close>.\<close>

definition end_finish :: "sockId \<Rightarrow> callId \<Rightarrow> call \<Rightarrow> int \<Rightarrow> js_flag \<Rightarrow> server \<Rightarrow> server" where
  "end_finish sock callId c finalDuration wasAccepted s =
     (let endData = CallEnded callId finalDuration wasAccepted (socketUserId s sock);
          s1 = emit (Room (callerSocketId c)) endData s;
          s2 = emit (Room (receiverSocketId c)) endData s1
      in s2\<lparr>activeCalls := AList.delete callId (activeCalls s2)\<rparr>)"

text \<open>
  The callback given to \<^verbatim>\<open>setTimeout\<close>, up to its first await. The runtime drops a
  timer when it fires; a handle that is not armed (never set, cleared, or fired
  already) has no callback to run.
\<close>

definition on_timer :: "timer \<Rightarrow> time \<Rightarrow> server \<Rightarrow> server" where
  "on_timer h now s =
     (case armed s h of
        None \<Rightarrow> s
      | Some (callId, delay) \<Rightarrow>
          let s1 = s\<lparr>armed := (armed s)(h := None)\<rparr> in
          (case map_of (activeCalls s1) callId of
             None \<Rightarrow> s1
           | Some c \<Rightarrow>
               if status c = Ringing
               then suspend (MissedFirst callId c
                               (call_message (caller c) (receiver c) 0 Missed now)) s1
               else s1))"

text \<open>The timeout callback after its try/catch: both emits, then both deletes.\<close>

definition missed_finish :: "callId \<Rightarrow> call \<Rightarrow> server \<Rightarrow> server" where
  "missed_finish callId c s =
     (let s1 = emit (Room (callerSocketId c)) (CallMissed callId ''No answer'' Outgoing) s;
          s2 = emit (Room (receiverSocketId c)) (CallMissed callId ''Missed call'' Incoming) s1
      in s2\<lparr>activeCalls := AList.delete callId (activeCalls s2),
            callTimeouts := (callTimeouts s2)(callId := None)\<rparr>)"

text \<open>
  A pending \<^verbatim>\<open>Message.create\<close> settles. When it succeeded the document is in the
  collection; when it threw, the \<^verbatim>\<open>catch\<close> skips what is left of the \<^verbatim>\<open>try\<close>
  block. The second document takes its timestamp when its create is called.
\<close>

fun resume :: "nat \<Rightarrow> continuation \<Rightarrow> bool \<Rightarrow> time \<Rightarrow> server \<Rightarrow> server" where
  "resume t (EndFirst sock callId c d w st m) ok now s =
     (if ok
      then s\<lparr>messages := messages s @ [m],
             awaiting := (awaiting s)(t \<mapsto> EndSecond sock callId c d w
                                          (call_message (receiver c) (caller c) d st now))\<rparr>
      else end_finish sock callId c d w s)"
| "resume t (EndSecond sock callId c d w m) ok now s =
     end_finish sock callId c d w (if ok then s\<lparr>messages := messages s @ [m]\<rparr> else s)"
| "resume t (MissedFirst callId c m) ok now s =
     (if ok
      then s\<lparr>messages := messages s @ [m],
             awaiting := (awaiting s)(t \<mapsto> MissedSecond callId c
                                          (call_message (receiver c) (caller c) 0 Missed now))\<rparr>
      else missed_finish callId c s)"
| "resume t (MissedSecond callId c m) ok now s =
     missed_finish callId c (if ok then s\<lparr>messages := messages s @ [m]\<rparr> else s)"

definition on_settled :: "nat \<Rightarrow> bool \<Rightarrow> time \<Rightarrow> server \<Rightarrow> server" where
  "on_settled t ok now s =
     (case awaiting s t of
        None \<Rightarrow> s
      | Some k \<Rightarrow> resume t k ok now (s\<lparr>awaiting := (awaiting s)(t := None)\<rparr>))"

text \<open>
  The three relay handlers (\<^verbatim>\<open>audio:webrtc:offer\<close>, \<^verbatim>\<open>answer\<close>,
  \<^verbatim>\<open>ice-candidate\<close>): forward to the target's socket when it is online.
\<close>

definition on_relay :: "(callId \<Rightarrow> userId option \<Rightarrow> string \<Rightarrow> payload) \<Rightarrow> sockId \<Rightarrow> callId \<Rightarrow> userId
    \<Rightarrow> string \<Rightarrow> server \<Rightarrow> server" where
  "on_relay mk sock callId targetUser body s =
     (case onlineUsers s targetUser of
        None \<Rightarrow> s
      | Some targetSock \<Rightarrow>
          if targetSock = '''' then s
          else emit (Room targetSock) (mk callId (socketUserId s sock) body) s)"

text \<open>
  \<^verbatim>\<open>socket.on('disconnect', ...)\<close>: first the presence part, then
  \<^verbatim>\<open>activeCalls.forEach\<close>, whose callback deletes only the entry it is visiting.
\<close>

definition disconnect_call :: "sockId \<Rightarrow> time \<Rightarrow> callId \<times> call \<Rightarrow> server \<Rightarrow> server" where
  "disconnect_call sock now e s =
     (case e of (callId, c) \<Rightarrow>
        if callerSocketId c = sock \<or> receiverSocketId c = sock
        then
          let s1 = clear_timeout callId s;
              endData = CallEndedDisconnect callId (elapsed_seconds c now) (was_accepted c)
                          ''User disconnected'';
              s2 = (if callerSocketId c = sock
                    then emit (Room (receiverSocketId c)) endData s1
                    else emit (Room (callerSocketId c)) endData s1)
          in s2\<lparr>activeCalls := AList.delete callId (activeCalls s2)\<rparr>
        else s)"

definition disconnect_presence :: "sockId \<Rightarrow> server \<Rightarrow> server" where
  "disconnect_presence sock s =
     (case socketUserId s sock of
        None \<Rightarrow> s
      | Some u \<Rightarrow>
          if u = '''' then s
          else emit All (UserStatus u False) (s\<lparr>onlineUsers := (onlineUsers s)(u := None)\<rparr>))"

definition on_disconnect :: "sockId \<Rightarrow> time \<Rightarrow> server \<Rightarrow> server" where
  "on_disconnect sock now s =
     (let s1 = disconnect_presence sock s
      in fold (disconnect_call sock now) (activeCalls s1) s1)"

subsection \<open>The event loop\<close>

datatype event =
    UserOnline sockId userId
  | Initiate sockId userId userId string time
  | Accept sockId callId time
  | Decline sockId callId "string option"
  | End sockId callId "int option" time
  | Offer sockId callId userId string
  | Answer sockId callId userId string
  | IceCandidate sockId callId userId string
  | Disconnect sockId time
  | TimerFired timer time
  | Settled nat bool time

fun step :: "event \<Rightarrow> server \<Rightarrow> server" where
  "step (UserOnline sock u) s = on_user_online sock u s"
| "step (Initiate sock receiverId callerId info now) s = on_initiate sock receiverId callerId info now s"
| "step (Accept sock c now) s = on_accept sock c now s"
| "step (Decline sock c r) s = on_decline sock c r s"
| "step (End sock c d now) s = on_end sock c d now s"
| "step (Offer sock c u body) s = on_relay WebrtcOffer sock c u body s"
| "step (Answer sock c u body) s = on_relay WebrtcAnswer sock c u body s"
| "step (IceCandidate sock c u body) s = on_relay WebrtcIce sock c u body s"
| "step (Disconnect sock now) s = on_disconnect sock now s"
| "step (TimerFired h now) s = on_timer h now s"
| "step (Settled t ok now) s = on_settled t ok now s"

definition run :: "event list \<Rightarrow> server \<Rightarrow> server" where
  "run es s = fold step es s"

subsection \<open>Observations on states and traces\<close>

text \<open>A continuation of the timeout callback of call \<open>c\<close>.\<close>

fun missed_for :: "callId \<Rightarrow> continuation \<Rightarrow> bool" where
  "missed_for c (MissedFirst c' k m) = (c' = c)"
| "missed_for c (MissedSecond c' k m) = (c' = c)"
| "missed_for c (EndFirst sock c' k d w st m) = False"
| "missed_for c (EndSecond sock c' k d w m) = False"

text \<open>The document whose write a stopped handler is waiting for.\<close>

fun in_flight :: "continuation \<Rightarrow> message" where
  "in_flight (EndFirst sock c k d w st m) = m"
| "in_flight (EndSecond sock c k d w m) = m"
| "in_flight (MissedFirst c k m) = m"
| "in_flight (MissedSecond c k m) = m"

text \<open>An initiate event whose generated call id is \<open>c\<close>.\<close>

fun initiates :: "callId \<Rightarrow> event \<Rightarrow> bool" where
  "initiates c (Initiate sock receiverId callerId info now) = (mk_callId callerId receiverId now = c)"
| "initiates c e = False"

fun is_missed :: "callId \<Rightarrow> target \<times> payload \<Rightarrow> bool" where
  "is_missed c (t, CallMissed c' r d) = (c' = c)"
| "is_missed c (t, p) = False"

text \<open>The \<^verbatim>\<open>audio:call:missed\<close> events emitted so far for call \<open>c\<close>.\<close>

definition missed_events :: "callId \<Rightarrow> server \<Rightarrow> (target \<times> payload) list" where
  "missed_events c s = filter (is_missed c) (emitted s)"

text \<open>
  The timeout path of call \<open>c\<close> is closed: the session is gone or no longer ringing,
  and no timeout callback for \<open>c\<close> is stopped at an await.
\<close>

definition timeout_closed :: "callId \<Rightarrow> server \<Rightarrow> bool" where
  "timeout_closed c s =
     ((\<forall>k. map_of (activeCalls s) c = Some k \<longrightarrow> status k = Active)
      \<and> (\<forall>t k. awaiting s t = Some k \<longrightarrow> \<not> missed_for c k))"

text \<open>Every stored session is active exactly when it carries an \<^verbatim>\<open>acceptedAt\<close>.\<close>

definition sessions_ok :: "server \<Rightarrow> bool" where
  "sessions_ok s =
     (\<forall>c k. map_of (activeCalls s) c = Some k \<longrightarrow> (status k = Active) = (acceptedAt k \<noteq> None))"

subsection \<open>An example run\<close>

text \<open>
  Three users come online on three sockets, then \<open>u1\<close> calls \<open>u2\<close> at time 5. The
  state after that, and the state after \<open>u2\<close> has accepted at time 1000.
\<close>

definition demo_call_id :: callId where
  "demo_call_id = mk_callId ''u1'' ''u2'' 5"

definition demo_session :: call where
  "demo_session = \<lparr> call_id = demo_call_id, caller = ''u1'', receiver = ''u2'',
      callerSocketId = ''s1'', receiverSocketId = ''s2'', status = Ringing, startedAt = 5,
      callerInfo = ''info'', acceptedAt = None \<rparr>"

definition demo_ringing :: server where
  "demo_ringing = run [UserOnline ''s1'' ''u1'', UserOnline ''s2'' ''u2'', UserOnline ''s3'' ''u3'',
                       Initiate ''s1'' ''u2'' ''u1'' ''info'' 5] init"

definition demo_active :: server where
  "demo_active = step (Accept ''s2'' demo_call_id 1000) demo_ringing"

section \<open>Basic facts\<close>

lemma demo_call_id_eq: "demo_call_id = ''call_u1_u2_5''"
  by (simp add: demo_call_id_def mk_callId_def dec_int_def dec_nat.simps digit_char_def)

lemma demo_ringing_eq:
  "demo_ringing = \<lparr> onlineUsers = [''u1'' \<mapsto> ''s1'', ''u2'' \<mapsto> ''s2'', ''u3'' \<mapsto> ''s3''],
      activeCalls = [(demo_call_id, demo_session)],
      callTimeouts = [demo_call_id \<mapsto> 0],
      socketUserId = [''s1'' \<mapsto> ''u1'', ''s2'' \<mapsto> ''u2'', ''s3'' \<mapsto> ''u3''],
      armed = [0 \<mapsto> (demo_call_id, 30000)], nextTimer = 1, messages = [],
      emitted = [(All, UserStatus ''u1'' True), (All, UserStatus ''u2'' True),
                 (All, UserStatus ''u3'' True),
                 (Socket ''s1'', CallInitiated demo_call_id ''u2''),
                 (Room ''s2'', CallIncoming demo_call_id ''info'')],
      awaiting = Map.empty, nextTask = 0 \<rparr>"
  by (simp add: demo_ringing_def run_def init_def on_user_online_def on_initiate_def emit_def
      Let_def demo_call_id_def demo_session_def missedCallDelay_def)

lemma demo_active_eq:
  "demo_active = \<lparr> onlineUsers = [''u1'' \<mapsto> ''s1'', ''u2'' \<mapsto> ''s2'', ''u3'' \<mapsto> ''s3''],
      activeCalls = [(demo_call_id, demo_session\<lparr>status := Active, acceptedAt := Some 1000\<rparr>)],
      callTimeouts = Map.empty,
      socketUserId = [''s1'' \<mapsto> ''u1'', ''s2'' \<mapsto> ''u2'', ''s3'' \<mapsto> ''u3''],
      armed = Map.empty, nextTimer = 1, messages = [],
      emitted = [(All, UserStatus ''u1'' True), (All, UserStatus ''u2'' True),
                 (All, UserStatus ''u3'' True),
                 (Socket ''s1'', CallInitiated demo_call_id ''u2''),
                 (Room ''s2'', CallIncoming demo_call_id ''info''),
                 (Room ''s1'', CallAccepted demo_call_id 1000),
                 (Room ''s2'', CallAccepted demo_call_id 1000)],
      awaiting = Map.empty, nextTask = 0 \<rparr>"
  by (simp add: demo_active_def demo_ringing_eq on_accept_def clear_timeout_def emit_def Let_def
      demo_session_def)

subsection \<open>Traces\<close>

lemma run_snoc: "run (es @ [e]) s = step e (run es s)"
  by (simp add: run_def)

lemma run_Cons: "run (e # es) s = run es (step e s)"
  by (simp add: run_def)

lemma demo_active_run:
  "demo_active = run [UserOnline ''s1'' ''u1'', UserOnline ''s2'' ''u2'', UserOnline ''s3'' ''u3'',
                      Initiate ''s1'' ''u2'' ''u1'' ''info'' 5, Accept ''s2'' demo_call_id 1000] init"
  by (simp add: demo_active_def demo_ringing_def run_def)

subsection \<open>The end handler and the timeout callback, run to completion\<close>

lemma on_end_live:
  "map_of (activeCalls s) c = Some k \<Longrightarrow>
   on_end sock c d now s =
     suspend (EndFirst sock c k (final_duration d k now) (was_accepted k)
                (call_outcome_of (was_accepted k) (final_duration d k now))
                (call_message (caller k) (receiver k) (final_duration d k now)
                   (call_outcome_of (was_accepted k) (final_duration d k now)) now))
       (clear_timeout c s)"
  by (simp add: on_end_def Let_def)

lemma nextTask_clear_timeout [simp]: "nextTask (clear_timeout c s) = nextTask s"
  by (simp add: clear_timeout_def split: option.splits)

text \<open>
  The end handler with no other event in between; \<open>ok1\<close> and \<open>ok2\<close> say whether the
  first and the second write succeed. When the first fails, the second is never
  started, and the second settle event finds nothing waiting.
\<close>

lemma end_then_settled:
  assumes "map_of (activeCalls s) c = Some k"
  shows "run [End sock c d now, Settled (nextTask s) ok1 n1, Settled (nextTask s) ok2 n2] s =
     (let fd = final_duration d k now; w = was_accepted k; st = call_outcome_of w fd;
          s1 = clear_timeout c s in
      s1\<lparr> messages := messages s @
              (if ok1 then call_message (caller k) (receiver k) fd st now #
                           (if ok2 then [call_message (receiver k) (caller k) fd st n1] else [])
               else []),
          emitted := emitted s @ [(Room (callerSocketId k), CallEnded c fd w (socketUserId s sock)),
                                  (Room (receiverSocketId k), CallEnded c fd w (socketUserId s sock))],
          activeCalls := AList.delete c (activeCalls s),
          nextTask := Suc (nextTask s),
          awaiting := (awaiting s)(nextTask s := None) \<rparr>)"
proof (cases "callTimeouts s c")
  case None
  then show ?thesis using assms
    apply (simp add: run_def on_end_live)
    apply (rule server.equality)
    apply (simp_all add: on_settled_def suspend_def clear_timeout_def Let_def end_finish_def emit_def)
    done
next
  case (Some h)
  then show ?thesis using assms
    apply (simp add: run_def on_end_live)
    apply (rule server.equality)
    apply (simp_all add: on_settled_def suspend_def clear_timeout_def Let_def end_finish_def emit_def)
    done
qed

lemma end_then_failed:
  assumes "map_of (activeCalls s) c = Some k"
  shows "run [End sock c d now, Settled (nextTask s) False n1] s =
     run [End sock c d now, Settled (nextTask s) False n1, Settled (nextTask s) ok2 n2] s"
  using assms
  by (simp add: run_def on_end_live)
     (simp add: on_settled_def suspend_def end_finish_def emit_def Let_def)

lemma timer_then_settled:
  assumes "armed s h = Some (c, dl)" "map_of (activeCalls s) c = Some k" "status k = Ringing"
  shows "run [TimerFired h now, Settled (nextTask s) ok1 n1, Settled (nextTask s) ok2 n2] s =
      s\<lparr> armed := (armed s)(h := None),
          messages := messages s @
              (if ok1 then call_message (caller k) (receiver k) 0 Missed now #
                           (if ok2 then [call_message (receiver k) (caller k) 0 Missed n1] else [])
               else []),
          emitted := emitted s @ [(Room (callerSocketId k), CallMissed c ''No answer'' Outgoing),
                                  (Room (receiverSocketId k), CallMissed c ''Missed call'' Incoming)],
          activeCalls := AList.delete c (activeCalls s),
          callTimeouts := (callTimeouts s)(c := None),
          nextTask := Suc (nextTask s),
          awaiting := (awaiting s)(nextTask s := None) \<rparr>"
  using assms
  by (intro server.equality)
     (simp_all add: run_def on_timer_def on_settled_def suspend_def Let_def missed_finish_def emit_def)

lemma timer_then_failed:
  assumes "armed s h = Some (c, dl)" "map_of (activeCalls s) c = Some k" "status k = Ringing"
  shows "run [TimerFired h now, Settled (nextTask s) False n1] s =
     run [TimerFired h now, Settled (nextTask s) False n1, Settled (nextTask s) ok2 n2] s"
  using assms
  by (simp add: run_def on_timer_def Let_def)
     (simp add: on_settled_def suspend_def missed_finish_def emit_def Let_def)

subsection \<open>The loop of the disconnect handler\<close>

lemma disconnect_call_same:
  "awaiting (disconnect_call sock now e s) = awaiting s"
  "messages (disconnect_call sock now e s) = messages s"
  "onlineUsers (disconnect_call sock now e s) = onlineUsers s"
  "socketUserId (disconnect_call sock now e s) = socketUserId s"
  "nextTimer (disconnect_call sock now e s) = nextTimer s"
  "nextTask (disconnect_call sock now e s) = nextTask s"
  by (auto simp: disconnect_call_def clear_timeout_def emit_def Let_def
      split: prod.splits option.splits)

lemma fold_disconnect_same:
  "awaiting (fold (disconnect_call sock now) es s) = awaiting s"
  "messages (fold (disconnect_call sock now) es s) = messages s"
  "onlineUsers (fold (disconnect_call sock now) es s) = onlineUsers s"
  "socketUserId (fold (disconnect_call sock now) es s) = socketUserId s"
  "nextTimer (fold (disconnect_call sock now) es s) = nextTimer s"
  "nextTask (fold (disconnect_call sock now) es s) = nextTask s"
  by (induction es arbitrary: s; simp add: disconnect_call_same)+

lemma disconnect_call_calls:
  "map_of (activeCalls (disconnect_call sock now e s)) x = Some k \<Longrightarrow>
   map_of (activeCalls s) x = Some k"
  by (auto simp: disconnect_call_def clear_timeout_def emit_def Let_def delete_conv
      split: prod.splits option.splits if_splits)

lemma fold_disconnect_calls:
  "map_of (activeCalls (fold (disconnect_call sock now) es s)) x = Some k \<Longrightarrow>
   map_of (activeCalls s) x = Some k"
  by (induction es arbitrary: s) (auto dest: disconnect_call_calls)

lemma disconnect_call_armed:
  "armed s h = None \<Longrightarrow> armed (disconnect_call sock now e s) h = None"
  by (auto simp: disconnect_call_def clear_timeout_def emit_def Let_def
      split: prod.splits option.splits if_splits)

lemma fold_disconnect_armed:
  "armed s h = None \<Longrightarrow> armed (fold (disconnect_call sock now) es s) h = None"
  by (induction es arbitrary: s) (auto dest: disconnect_call_armed)

lemma disconnect_call_missed:
  "missed_events c (disconnect_call sock now e s) = missed_events c s"
  by (auto simp: missed_events_def disconnect_call_def clear_timeout_def emit_def Let_def
      split: prod.splits option.splits)

lemma fold_disconnect_missed:
  "missed_events c (fold (disconnect_call sock now) es s) = missed_events c s"
  by (induction es arbitrary: s) (auto simp: disconnect_call_missed)

lemma fold_disconnect_emitted:
  "\<exists>xs. emitted (fold (disconnect_call sock now) es s) = emitted s @ xs"
proof (induction es arbitrary: s)
  case Nil
  show ?case by simp
next
  case (Cons e es)
  have "\<exists>ys. emitted (disconnect_call sock now e s) = emitted s @ ys"
    by (auto simp: disconnect_call_def clear_timeout_def emit_def Let_def
        split: prod.splits option.splits)
  then obtain ys where ys: "emitted (disconnect_call sock now e s) = emitted s @ ys" ..
  from Cons [of "disconnect_call sock now e s"] obtain xs
    where "emitted (fold (disconnect_call sock now) es (disconnect_call sock now e s)) =
           emitted (disconnect_call sock now e s) @ xs" ..
  with ys show ?case by simp
qed

subsection \<open>Invariants of the event loop\<close>

text \<open>
  The Message collection changes only when the write of a waiting handler settles
  successfully, and then gains exactly the document that handler was writing.
\<close>

lemma messages_step:
  "messages (step e s) = messages s \<or>
   (\<exists>t now k. e = Settled t True now \<and> awaiting s t = Some k
      \<and> messages (step e s) = messages s @ [in_flight k])"
proof (cases e)
  case (Disconnect sock now)
  have "messages (disconnect_presence sock s) = messages s"
    by (simp add: disconnect_presence_def emit_def split: option.splits)
  then show ?thesis using Disconnect
    by (simp add: on_disconnect_def Let_def fold_disconnect_same)
next
  case (Settled t ok now)
  show ?thesis
  proof (cases "awaiting s t")
    case None
    then show ?thesis using Settled by (simp add: on_settled_def)
  next
    case (Some k)
    then show ?thesis using Settled
      by (cases k; cases ok)
         (simp_all add: on_settled_def end_finish_def missed_finish_def emit_def Let_def)
  qed
qed (simp_all add: on_user_online_def on_initiate_def on_accept_def on_decline_def on_end_def
      on_relay_def on_timer_def suspend_def clear_timeout_def emit_def Let_def
      split: option.splits prod.splits)

text \<open>Once the timeout path of \<open>c\<close> is closed, only a new initiate for \<open>c\<close> reopens it.\<close>

lemma step_timeout_closed:
  assumes "timeout_closed c s" "\<not> initiates c e"
  shows "timeout_closed c (step e s) \<and> missed_events c (step e s) = missed_events c s"
proof (cases e)
  case (UserOnline sock u)
  then show ?thesis using assms
    by (auto simp: timeout_closed_def missed_events_def on_user_online_def emit_def)
next
  case (Initiate sock receiverId callerId info now)
  then show ?thesis using assms
    by (auto simp: timeout_closed_def missed_events_def on_initiate_def emit_def Let_def
        update_conv split: option.splits)
next
  case (Accept sock c' now)
  then show ?thesis using assms
    by (auto simp: timeout_closed_def missed_events_def on_accept_def emit_def Let_def
        update_conv clear_timeout_def split: option.splits if_splits)
next
  case (Decline sock c' r)
  then show ?thesis using assms
    by (auto simp: timeout_closed_def missed_events_def on_decline_def emit_def Let_def
        delete_conv clear_timeout_def split: option.splits if_splits)
next
  case (End sock c' d now)
  then show ?thesis using assms
    by (auto simp: timeout_closed_def missed_events_def on_end_def suspend_def Let_def
        clear_timeout_def split: option.splits if_splits)
next
  case (Offer sock c' u body)
  then show ?thesis using assms
    by (auto simp: timeout_closed_def missed_events_def on_relay_def emit_def
        split: option.splits)
next
  case (Answer sock c' u body)
  then show ?thesis using assms
    by (auto simp: timeout_closed_def missed_events_def on_relay_def emit_def
        split: option.splits)
next
  case (IceCandidate sock c' u body)
  then show ?thesis using assms
    by (auto simp: timeout_closed_def missed_events_def on_relay_def emit_def
        split: option.splits)
next
  case (Disconnect sock now)
  have "timeout_closed c (disconnect_presence sock s)"
    and "missed_events c (disconnect_presence sock s) = missed_events c s"
    using assms
    by (auto simp: timeout_closed_def missed_events_def disconnect_presence_def emit_def
        split: option.splits)
  then show ?thesis using Disconnect
    by (auto simp: timeout_closed_def on_disconnect_def Let_def fold_disconnect_same
        fold_disconnect_missed dest: fold_disconnect_calls)
next
  case (TimerFired h now)
  then show ?thesis using assms
    by (auto simp: timeout_closed_def missed_events_def on_timer_def suspend_def Let_def
        split: option.splits if_splits)
next
  case (Settled t ok now)
  show ?thesis
  proof (cases "awaiting s t")
    case None
    then show ?thesis using assms Settled by (simp add: on_settled_def)
  next
    case (Some k)
    then have nm: "\<not> missed_for c k" using assms by (auto simp: timeout_closed_def)
    show ?thesis
    proof (cases k)
      case (EndFirst sock c' k' d w st m)
      then show ?thesis using assms Settled Some
        by (auto simp: timeout_closed_def missed_events_def on_settled_def end_finish_def
            emit_def Let_def delete_conv split: if_splits)
    next
      case (EndSecond sock c' k' d w m)
      then show ?thesis using assms Settled Some
        by (auto simp: timeout_closed_def missed_events_def on_settled_def end_finish_def
            emit_def Let_def delete_conv split: if_splits)
    next
      case (MissedFirst c' k' m)
      then show ?thesis using assms Settled Some nm
        by (auto simp: timeout_closed_def missed_events_def on_settled_def missed_finish_def
            emit_def Let_def delete_conv split: if_splits)
    next
      case (MissedSecond c' k' m)
      then show ?thesis using assms Settled Some nm
        by (auto simp: timeout_closed_def missed_events_def on_settled_def missed_finish_def
            emit_def Let_def delete_conv split: if_splits)
    qed
  qed
qed

lemma run_timeout_closed:
  "timeout_closed c s \<Longrightarrow> \<forall>e\<in>set es. \<not> initiates c e \<Longrightarrow>
   timeout_closed c (run es s) \<and> missed_events c (run es s) = missed_events c s"
proof (induction es arbitrary: s)
  case Nil
  then show ?case by (simp add: run_def)
next
  case (Cons e es)
  from Cons.prems have "timeout_closed c (step e s)"
    and "missed_events c (step e s) = missed_events c s"
    using step_timeout_closed [of c s e] by auto
  with Cons show ?case by (simp add: run_Cons)
qed

text \<open>Timer handles are never reused: a handle that was given out and is no longer armed stays so.\<close>

lemma step_disarmed:
  assumes "armed s h = None" "h < nextTimer s"
  shows "armed (step e s) h = None \<and> h < nextTimer (step e s)"
proof (cases e)
  case (Disconnect sock now)
  have "armed (disconnect_presence sock s) h = None"
    and "nextTimer (disconnect_presence sock s) = nextTimer s"
    using assms by (auto simp: disconnect_presence_def emit_def split: option.splits)
  then show ?thesis using Disconnect assms
    by (simp add: on_disconnect_def Let_def fold_disconnect_same fold_disconnect_armed)
next
  case (Settled t ok now)
  show ?thesis
  proof (cases "awaiting s t")
    case None
    then show ?thesis using assms Settled by (simp add: on_settled_def)
  next
    case (Some k)
    then show ?thesis using assms Settled
      by (cases k) (auto simp: on_settled_def end_finish_def missed_finish_def emit_def Let_def)
  qed
qed (use assms in \<open>auto simp: on_user_online_def on_initiate_def on_accept_def on_decline_def
      on_end_def on_relay_def on_timer_def suspend_def clear_timeout_def emit_def Let_def
      split: option.splits if_splits\<close>)

lemma run_disarmed:
  "armed s h = None \<Longrightarrow> h < nextTimer s \<Longrightarrow>
   armed (run es s) h = None \<and> h < nextTimer (run es s)"
  by (induction es arbitrary: s) (simp add: run_def, simp add: run_Cons step_disarmed)

lemma step_sessions_ok:
  assumes "sessions_ok s"
  shows "sessions_ok (step e s)"
proof (cases e)
  case (Disconnect sock now)
  have "sessions_ok (disconnect_presence sock s)"
    using assms
    by (auto simp: sessions_ok_def disconnect_presence_def emit_def split: option.splits)
  then show ?thesis using Disconnect
    by (auto simp: sessions_ok_def on_disconnect_def Let_def dest!: fold_disconnect_calls)
next
  case (Settled t ok now)
  show ?thesis
  proof (cases "awaiting s t")
    case None
    then show ?thesis using assms Settled by (simp add: on_settled_def)
  next
    case (Some k)
    then show ?thesis using assms Settled
      by (cases k) (auto simp: sessions_ok_def on_settled_def end_finish_def missed_finish_def
          emit_def Let_def delete_conv split: if_splits)
  qed
qed (use assms in \<open>auto simp: sessions_ok_def on_user_online_def on_initiate_def on_accept_def
      on_decline_def on_end_def on_relay_def on_timer_def suspend_def clear_timeout_def emit_def
      Let_def update_conv delete_conv split: option.splits if_splits\<close>)

lemma reachable_sessions_ok: "sessions_ok (run es init)"
proof (induction es rule: rev_induct)
  case Nil
  show ?case by (simp add: run_def sessions_ok_def init_def)
next
  case (snoc e es)
  then show ?case by (simp add: run_snoc step_sessions_ok)
qed

section \<open>Decline\<close>

text \<open>
  C8: a decline for a call id with a live session removes the \<^verbatim>\<open>callTimeouts\<close> entry
  and disarms the timer it named, emits exactly one event, \<^verbatim>\<open>audio:call:declined\<close>
  to the room of the caller's recorded socket, with the supplied reason (the default
  \<^verbatim>\<open>'Call declined'\<close> when the reason is missing or empty), writes no message and
  removes the session. A second decline for the same call id, from any socket and
  with any reason, then leaves the whole state as it is: nothing is thrown and
  nothing is emitted.
\<close>

theorem decline_live_then_noop:
  assumes "map_of (activeCalls s) c = Some k"
  shows "(let s' = step (Decline sock c r) s in
      callTimeouts s' c = None
    \<and> (\<forall>h. callTimeouts s c = Some h \<longrightarrow> armed s' h = None)
    \<and> emitted s' = emitted s @ [(Room (callerSocketId k), CallDeclined c
           (case r of None \<Rightarrow> ''Call declined''
            | Some x \<Rightarrow> if x = '''' then ''Call declined'' else x))]
    \<and> messages s' = messages s
    \<and> map_of (activeCalls s') c = None
    \<and> step (Decline sock2 c r2) s' = s')"
  using assms
  by (auto simp: on_decline_def Let_def emit_def clear_timeout_def delete_conv decline_reason_def
      split: option.splits)

theorem decline_live_then_noop_witness:
  "map_of (activeCalls demo_ringing) demo_call_id = Some demo_session
   \<and> (let s' = step (Decline ''s2'' demo_call_id None) demo_ringing in
      callTimeouts s' demo_call_id = None \<and> armed s' 0 = None
    \<and> emitted s' = emitted demo_ringing @ [(Room ''s1'', CallDeclined demo_call_id ''Call declined'')]
    \<and> map_of (activeCalls s') demo_call_id = None
    \<and> step (Decline ''s2'' demo_call_id (Some ''busy'')) s' = s')"
proof -
  have live: "map_of (activeCalls demo_ringing) demo_call_id = Some demo_session"
    by (simp add: demo_ringing_eq)
  show ?thesis
    using live decline_live_then_noop [OF live, of "''s2''" None "''s2''" "Some ''busy''"]
    by (simp add: Let_def demo_ringing_eq demo_session_def)
qed

section \<open>Explicit end\<close>

text \<open>
  C4: an explicit end for a call id with a live session, in any reachable state,
  with both writes succeeding and no other event in between. The final duration is
  the client's value when there is one, else \<open>floor ((now - acceptedAt) / 1000)\<close> when
  the call was accepted, else 0. The outcome is \<open>Completed\<close> exactly when the call was
  accepted and the final duration is positive, \<open>Missed\<close> otherwise. Two call messages
  with this outcome and duration are written, the second with sender and receiver
  swapped. An \<^verbatim>\<open>audio:call:ended\<close> event with the call id, the duration,
  \<^verbatim>\<open>wasAccepted\<close> (the acceptance date, which is truthy, or \<^verbatim>\<open>false\<close>) and
  \<^verbatim>\<open>endedBy\<close> (the ending socket's user id) goes to the rooms of both recorded
  sockets, and the session is removed.
\<close>

theorem explicit_end_resolution:
  assumes "map_of (activeCalls (run es init)) c = Some k"
  shows "(let s = run es init; t = nextTask s;
              s' = run [End sock c d now, Settled t True n1, Settled t True n2] s;
              fd = (case d of Some x \<Rightarrow> x
                    | None \<Rightarrow> (case acceptedAt k of Some a \<Rightarrow> (now - a) div 1000 | None \<Rightarrow> 0));
              st = (if acceptedAt k \<noteq> None \<and> fd > 0 then Completed else Missed);
              w = (case acceptedAt k of Some a \<Rightarrow> JDate a | None \<Rightarrow> JFalse)
          in messages s' = messages s @
               [\<lparr> sender = caller k, msg_receiver = receiver k, msg_type = ''call'', content = '''',
                   callData = \<lparr> duration = fd, callType = ''audio'', outcome = st, timestamp = now \<rparr>,
                   msg_status = ''delivered'' \<rparr>,
                \<lparr> sender = receiver k, msg_receiver = caller k, msg_type = ''call'', content = '''',
                   callData = \<lparr> duration = fd, callType = ''audio'', outcome = st, timestamp = n1 \<rparr>,
                   msg_status = ''delivered'' \<rparr>]
           \<and> emitted s' = emitted s @
               [(Room (callerSocketId k), CallEnded c fd w (socketUserId s sock)),
                (Room (receiverSocketId k), CallEnded c fd w (socketUserId s sock))]
           \<and> truthy w = (acceptedAt k \<noteq> None)
           \<and> map_of (activeCalls s') c = None
           \<and> callTimeouts s' c = None
           \<and> awaiting s' t = None)"
proof -
  have ok: "(status k = Active) = (acceptedAt k \<noteq> None)"
    using reachable_sessions_ok [of es] assms by (simp add: sessions_ok_def)
  have w: "was_accepted k = (case acceptedAt k of Some a \<Rightarrow> JDate a | None \<Rightarrow> JFalse)"
    using ok by (auto simp: was_accepted_def split: option.splits)
  show ?thesis
    unfolding Let_def end_then_settled [OF assms]
    using ok
    by (auto simp: w final_duration_def elapsed_seconds_def call_outcome_of_def call_message_def
        delete_conv clear_timeout_def split: option.splits)
qed

theorem explicit_end_resolution_witness:
  "map_of (activeCalls demo_active) demo_call_id
     = Some (demo_session\<lparr>status := Active, acceptedAt := Some 1000\<rparr>)
   \<and> messages (run [End ''s1'' demo_call_id (Some 42) 50000, Settled 0 True 50001,
                    Settled 0 True 50002] demo_active) =
       [\<lparr> sender = ''u1'', msg_receiver = ''u2'', msg_type = ''call'', content = '''',
           callData = \<lparr> duration = 42, callType = ''audio'', outcome = Completed, timestamp = 50000 \<rparr>,
           msg_status = ''delivered'' \<rparr>,
        \<lparr> sender = ''u2'', msg_receiver = ''u1'', msg_type = ''call'', content = '''',
           callData = \<lparr> duration = 42, callType = ''audio'', outcome = Completed, timestamp = 50001 \<rparr>,
           msg_status = ''delivered'' \<rparr>]
   \<and> emitted (run [End ''s1'' demo_call_id (Some 42) 50000, Settled 0 True 50001,
                    Settled 0 True 50002] demo_active) =
       emitted demo_active @
        [(Room ''s1'', CallEnded demo_call_id 42 (JDate 1000) (Some ''u1'')),
         (Room ''s2'', CallEnded demo_call_id 42 (JDate 1000) (Some ''u1''))]
   \<and> map_of (activeCalls (run [End ''s1'' demo_call_id (Some 42) 50000, Settled 0 True 50001,
                    Settled 0 True 50002] demo_active)) demo_call_id = None"
proof -
  have live: "map_of (activeCalls (run [UserOnline ''s1'' ''u1'', UserOnline ''s2'' ''u2'',
      UserOnline ''s3'' ''u3'', Initiate ''s1'' ''u2'' ''u1'' ''info'' 5,
      Accept ''s2'' demo_call_id 1000] init)) demo_call_id
     = Some (demo_session\<lparr>status := Active, acceptedAt := Some 1000\<rparr>)"
    unfolding demo_active_run [symmetric] by (simp add: demo_active_eq)
  show ?thesis
    using live explicit_end_resolution [OF live, of "''s1''" "Some 42" 50000 50001 50002]
    unfolding demo_active_run [symmetric]
    by (simp add: Let_def demo_active_eq demo_session_def)
qed

section \<open>Timeout\<close>

text \<open>
  C5: the 30-second timer of a call fires while the session is still ringing, both
  writes succeed and no other event comes in between. Exactly two call messages are
  written, caller to receiver and receiver to caller, both with outcome \<open>Missed\<close> and
  duration 0. \<^verbatim>\<open>audio:call:missed\<close> goes to the caller's room with reason
  \<^verbatim>\<open>'No answer'\<close> and call type \<^verbatim>\<open>outgoing\<close>, and to the receiver's room with reason
  \<^verbatim>\<open>'Missed call'\<close> and call type \<^verbatim>\<open>incoming\<close>. The session and the
  \<^verbatim>\<open>callTimeouts\<close> entry are removed.
\<close>

theorem timeout_fire_while_ringing:
  assumes "armed s h = Some (c, 30000)" "map_of (activeCalls s) c = Some k" "status k = Ringing"
  shows "(let t = nextTask s;
              s' = run [TimerFired h now, Settled t True n1, Settled t True n2] s
          in messages s' = messages s @
               [\<lparr> sender = caller k, msg_receiver = receiver k, msg_type = ''call'', content = '''',
                   callData = \<lparr> duration = 0, callType = ''audio'', outcome = Missed, timestamp = now \<rparr>,
                   msg_status = ''delivered'' \<rparr>,
                \<lparr> sender = receiver k, msg_receiver = caller k, msg_type = ''call'', content = '''',
                   callData = \<lparr> duration = 0, callType = ''audio'', outcome = Missed, timestamp = n1 \<rparr>,
                   msg_status = ''delivered'' \<rparr>]
           \<and> emitted s' = emitted s @
               [(Room (callerSocketId k), CallMissed c ''No answer'' Outgoing),
                (Room (receiverSocketId k), CallMissed c ''Missed call'' Incoming)]
           \<and> map_of (activeCalls s') c = None
           \<and> callTimeouts s' c = None
           \<and> armed s' h = None
           \<and> awaiting s' t = None)"
  unfolding Let_def timer_then_settled [OF assms]
  by (simp add: call_message_def delete_conv)

theorem timeout_fire_while_ringing_witness:
  "armed demo_ringing 0 = Some (demo_call_id, 30000)
   \<and> map_of (activeCalls demo_ringing) demo_call_id = Some demo_session
   \<and> status demo_session = Ringing
   \<and> messages (run [TimerFired 0 30005, Settled 0 True 30006, Settled 0 True 30007] demo_ringing) =
       [\<lparr> sender = ''u1'', msg_receiver = ''u2'', msg_type = ''call'', content = '''',
           callData = \<lparr> duration = 0, callType = ''audio'', outcome = Missed, timestamp = 30005 \<rparr>,
           msg_status = ''delivered'' \<rparr>,
        \<lparr> sender = ''u2'', msg_receiver = ''u1'', msg_type = ''call'', content = '''',
           callData = \<lparr> duration = 0, callType = ''audio'', outcome = Missed, timestamp = 30006 \<rparr>,
           msg_status = ''delivered'' \<rparr>]
   \<and> emitted (run [TimerFired 0 30005, Settled 0 True 30006, Settled 0 True 30007] demo_ringing) =
       emitted demo_ringing @
        [(Room ''s1'', CallMissed demo_call_id ''No answer'' Outgoing),
         (Room ''s2'', CallMissed demo_call_id ''Missed call'' Incoming)]
   \<and> map_of (activeCalls (run [TimerFired 0 30005, Settled 0 True 30006, Settled 0 True 30007]
         demo_ringing)) demo_call_id = None
   \<and> callTimeouts (run [TimerFired 0 30005, Settled 0 True 30006, Settled 0 True 30007]
         demo_ringing) demo_call_id = None"
proof -
  have a: "armed demo_ringing 0 = Some (demo_call_id, 30000)"
    and l: "map_of (activeCalls demo_ringing) demo_call_id = Some demo_session"
    and r: "status demo_session = Ringing"
    by (simp_all add: demo_ringing_eq demo_session_def)
  show ?thesis
    using a l r timeout_fire_while_ringing [OF a l r, of 30005 30006 30007]
    by (simp add: Let_def demo_ringing_eq demo_session_def)
qed

section \<open>Failing history writes\<close>

text \<open>
  C7: when a \<^verbatim>\<open>Message.create\<close> throws in the end handler (the first write, or the
  second after the first succeeded), the handler still finishes, and the state it
  leaves differs from the state of the run with two successful writes only in the
  Message collection: the same \<^verbatim>\<open>audio:call:ended\<close> events went to both recorded
  sockets and the session is removed. The same holds for the timeout callback of a
  ringing call and its \<^verbatim>\<open>audio:call:missed\<close> events.
\<close>

theorem history_failure_keeps_notifications:
  assumes "map_of (activeCalls s) c = Some k"
  shows "(let t = nextTask s;
              good = run [End sock c d now, Settled t True n1, Settled t True n2] s;
              bad1 = run [End sock c d now, Settled t False n1] s;
              bad2 = run [End sock c d now, Settled t True n1, Settled t False n2] s
          in bad1 = good\<lparr>messages := messages s\<rparr>
           \<and> bad2 = good\<lparr>messages := butlast (messages good)\<rparr>
           \<and> emitted good = emitted s @
               [(Room (callerSocketId k), CallEnded c (final_duration d k now) (was_accepted k)
                   (socketUserId s sock)),
                (Room (receiverSocketId k), CallEnded c (final_duration d k now) (was_accepted k)
                   (socketUserId s sock))]
           \<and> map_of (activeCalls good) c = None
           \<and> awaiting good t = None)
       \<and> (\<forall>h dl. armed s h = Some (c, dl) \<and> status k = Ringing \<longrightarrow>
           (let t = nextTask s;
                good = run [TimerFired h now, Settled t True n1, Settled t True n2] s;
                bad1 = run [TimerFired h now, Settled t False n1] s;
                bad2 = run [TimerFired h now, Settled t True n1, Settled t False n2] s
            in bad1 = good\<lparr>messages := messages s\<rparr>
             \<and> bad2 = good\<lparr>messages := butlast (messages good)\<rparr>
             \<and> emitted good = emitted s @
                 [(Room (callerSocketId k), CallMissed c ''No answer'' Outgoing),
                  (Room (receiverSocketId k), CallMissed c ''Missed call'' Incoming)]
             \<and> map_of (activeCalls good) c = None
             \<and> callTimeouts good c = None
             \<and> awaiting good t = None))"
proof -
  have e: "run [End sock c d now, Settled (nextTask s) False n1] s =
           run [End sock c d now, Settled (nextTask s) False n1, Settled (nextTask s) True n2] s"
    by (rule end_then_failed [OF assms])
  have endpart: "(let t = nextTask s;
              good = run [End sock c d now, Settled t True n1, Settled t True n2] s;
              bad1 = run [End sock c d now, Settled t False n1] s;
              bad2 = run [End sock c d now, Settled t True n1, Settled t False n2] s
          in bad1 = good\<lparr>messages := messages s\<rparr>
           \<and> bad2 = good\<lparr>messages := butlast (messages good)\<rparr>
           \<and> emitted good = emitted s @
               [(Room (callerSocketId k), CallEnded c (final_duration d k now) (was_accepted k)
                   (socketUserId s sock)),
                (Room (receiverSocketId k), CallEnded c (final_duration d k now) (was_accepted k)
                   (socketUserId s sock))]
           \<and> map_of (activeCalls good) c = None
           \<and> awaiting good t = None)"
    unfolding Let_def e end_then_settled [OF assms]
    by (simp add: delete_conv butlast_append clear_timeout_def split: option.splits)
  have timerpart: "(let t = nextTask s;
                good = run [TimerFired h now, Settled t True n1, Settled t True n2] s;
                bad1 = run [TimerFired h now, Settled t False n1] s;
                bad2 = run [TimerFired h now, Settled t True n1, Settled t False n2] s
            in bad1 = good\<lparr>messages := messages s\<rparr>
             \<and> bad2 = good\<lparr>messages := butlast (messages good)\<rparr>
             \<and> emitted good = emitted s @
                 [(Room (callerSocketId k), CallMissed c ''No answer'' Outgoing),
                  (Room (receiverSocketId k), CallMissed c ''Missed call'' Incoming)]
             \<and> map_of (activeCalls good) c = None
             \<and> callTimeouts good c = None
             \<and> awaiting good t = None)"
    if a: "armed s h = Some (c, dl)" and r: "status k = Ringing" for h dl
  proof -
    have f: "run [TimerFired h now, Settled (nextTask s) False n1] s =
       run [TimerFired h now, Settled (nextTask s) False n1, Settled (nextTask s) True n2] s"
      by (rule timer_then_failed [OF a assms r])
    show ?thesis
      unfolding Let_def f timer_then_settled [OF a assms r]
      by (simp add: delete_conv butlast_append)
  qed
  from endpart timerpart show ?thesis by blast
qed

theorem history_failure_keeps_notifications_witness:
  "map_of (activeCalls demo_ringing) demo_call_id = Some demo_session
   \<and> armed demo_ringing 0 = Some (demo_call_id, 30000)
   \<and> status demo_session = Ringing
   \<and> emitted (run [End ''s1'' demo_call_id None 30005, Settled 0 False 30006] demo_ringing) =
       emitted demo_ringing @
        [(Room ''s1'', CallEnded demo_call_id 0 JFalse (Some ''u1'')),
         (Room ''s2'', CallEnded demo_call_id 0 JFalse (Some ''u1''))]
   \<and> map_of (activeCalls (run [End ''s1'' demo_call_id None 30005, Settled 0 False 30006]
         demo_ringing)) demo_call_id = None
   \<and> emitted (run [TimerFired 0 30005, Settled 0 False 30006] demo_ringing) =
       emitted demo_ringing @
        [(Room ''s1'', CallMissed demo_call_id ''No answer'' Outgoing),
         (Room ''s2'', CallMissed demo_call_id ''Missed call'' Incoming)]
   \<and> map_of (activeCalls (run [TimerFired 0 30005, Settled 0 False 30006] demo_ringing))
         demo_call_id = None"
proof -
  have l: "map_of (activeCalls demo_ringing) demo_call_id = Some demo_session"
    and a: "armed demo_ringing 0 = Some (demo_call_id, 30000)"
    and r: "status demo_session = Ringing"
    and t: "nextTask demo_ringing = 0"
    by (simp_all add: demo_ringing_eq demo_session_def)
  note inst = history_failure_keeps_notifications
                [OF l, of "''s1''" None 30005 30006 30007]
  from inst have e1: "run [End ''s1'' demo_call_id None 30005, Settled 0 False 30006] demo_ringing =
      (run [End ''s1'' demo_call_id None 30005, Settled 0 True 30006, Settled 0 True 30007] demo_ringing)
        \<lparr>messages := messages demo_ringing\<rparr>"
    and e2: "emitted (run [End ''s1'' demo_call_id None 30005, Settled 0 True 30006, Settled 0 True 30007]
        demo_ringing) = emitted demo_ringing @
          [(Room (callerSocketId demo_session), CallEnded demo_call_id
              (final_duration None demo_session 30005) (was_accepted demo_session)
              (socketUserId demo_ringing ''s1'')),
           (Room (receiverSocketId demo_session), CallEnded demo_call_id
              (final_duration None demo_session 30005) (was_accepted demo_session)
              (socketUserId demo_ringing ''s1''))]"
    and e3: "map_of (activeCalls (run [End ''s1'' demo_call_id None 30005, Settled 0 True 30006,
        Settled 0 True 30007] demo_ringing)) demo_call_id = None"
    by (simp_all add: Let_def t)
  from inst a r have m1: "run [TimerFired 0 30005, Settled 0 False 30006] demo_ringing =
      (run [TimerFired 0 30005, Settled 0 True 30006, Settled 0 True 30007] demo_ringing)
        \<lparr>messages := messages demo_ringing\<rparr>"
    and m2: "emitted (run [TimerFired 0 30005, Settled 0 True 30006, Settled 0 True 30007]
        demo_ringing) = emitted demo_ringing @
          [(Room (callerSocketId demo_session), CallMissed demo_call_id ''No answer'' Outgoing),
           (Room (receiverSocketId demo_session), CallMissed demo_call_id ''Missed call'' Incoming)]"
    and m3: "map_of (activeCalls (run [TimerFired 0 30005, Settled 0 True 30006, Settled 0 True 30007]
        demo_ringing)) demo_call_id = None"
    by (simp_all add: Let_def t)
  have v: "final_duration None demo_session 30005 = 0" "was_accepted demo_session = JFalse"
    "socketUserId demo_ringing ''s1'' = Some ''u1''" "callerSocketId demo_session = ''s1''"
    "receiverSocketId demo_session = ''s2''"
    by (simp_all add: final_duration_def elapsed_seconds_def was_accepted_def demo_session_def
        demo_ringing_eq)
  show ?thesis
    using l a r e2 e3 m2 m3 by (simp add: e1 m1 v)
qed

section \<open>Requests from any socket\<close>

text \<open>
  C9: the handlers find a call by its id alone and never compare the requesting
  socket with the participants. For every socket \<open>sock\<close>, whatever user it is
  registered to, an \<^verbatim>\<open>audio:call:end\<close> from \<open>sock\<close> for a live session (run to
  completion, both writes succeeding) removes the session, writes the two call
  messages and emits \<^verbatim>\<open>audio:call:ended\<close> to the rooms of both recorded sockets with
  \<^verbatim>\<open>endedBy\<close> the user id of \<open>sock\<close>. An accept from \<open>sock\<close> makes the session active,
  and does the same whichever socket sends it.
\<close>

theorem end_from_any_socket:
  assumes "map_of (activeCalls s) c = Some k"
  shows "(let t = nextTask s;
              s' = run [End sock c d now, Settled t True n1, Settled t True n2] s
          in map_of (activeCalls s') c = None
           \<and> callTimeouts s' c = None
           \<and> messages s' = messages s @
               [call_message (caller k) (receiver k) (final_duration d k now)
                  (call_outcome_of (was_accepted k) (final_duration d k now)) now,
                call_message (receiver k) (caller k) (final_duration d k now)
                  (call_outcome_of (was_accepted k) (final_duration d k now)) n1]
           \<and> emitted s' = emitted s @
               [(Room (callerSocketId k), CallEnded c (final_duration d k now) (was_accepted k)
                   (socketUserId s sock)),
                (Room (receiverSocketId k), CallEnded c (final_duration d k now) (was_accepted k)
                   (socketUserId s sock))])
       \<and> map_of (activeCalls (step (Accept sock c now) s)) c
            = Some (k\<lparr>status := Active, acceptedAt := Some now\<rparr>)
       \<and> step (Accept sock c now) s = step (Accept sock2 c now) s"
  unfolding Let_def end_then_settled [OF assms]
  using assms
  by (simp add: delete_conv clear_timeout_def on_accept_def Let_def update_conv emit_def
      split: option.splits)

theorem end_from_any_socket_witness:
  "map_of (activeCalls demo_active) demo_call_id
     = Some (demo_session\<lparr>status := Active, acceptedAt := Some 1000\<rparr>)
   \<and> socketUserId demo_active ''s3'' = Some ''u3''
   \<and> map_of (activeCalls (run [End ''s3'' demo_call_id None 61000, Settled 0 True 61001,
         Settled 0 True 61002] demo_active)) demo_call_id = None
   \<and> length (messages (run [End ''s3'' demo_call_id None 61000, Settled 0 True 61001,
         Settled 0 True 61002] demo_active)) = 2
   \<and> emitted (run [End ''s3'' demo_call_id None 61000, Settled 0 True 61001,
         Settled 0 True 61002] demo_active) =
       emitted demo_active @
        [(Room ''s1'', CallEnded demo_call_id 60 (JDate 1000) (Some ''u3'')),
         (Room ''s2'', CallEnded demo_call_id 60 (JDate 1000) (Some ''u3''))]"
proof -
  have live: "map_of (activeCalls demo_active) demo_call_id
     = Some (demo_session\<lparr>status := Active, acceptedAt := Some 1000\<rparr>)"
    by (simp add: demo_active_eq)
  show ?thesis
    using live end_from_any_socket [OF live, of "''s3''" None 61000 61001 61002]
    by (simp add: Let_def demo_active_eq demo_session_def final_duration_def elapsed_seconds_def
        was_accepted_def)
qed

section \<open>Decline of an active call\<close>

text \<open>
  C10: the decline handler does not look at the session's status. A decline for a
  session that is already active removes the \<^verbatim>\<open>callTimeouts\<close> entry and disarms the
  timer it named, if there is one, emits exactly one event, \<^verbatim>\<open>audio:call:declined\<close>
  to the room of the caller's recorded socket (so no \<^verbatim>\<open>audio:call:ended\<close>), writes no
  message, starts no write and removes the session.
\<close>

theorem decline_of_active_call:
  assumes "map_of (activeCalls s) c = Some k" "status k = Active"
  shows "(let s' = step (Decline sock c r) s in
      callTimeouts s' c = None
    \<and> (\<forall>h. callTimeouts s c = Some h \<longrightarrow> armed s' h = None)
    \<and> emitted s' = emitted s @ [(Room (callerSocketId k), CallDeclined c (decline_reason r))]
    \<and> messages s' = messages s
    \<and> awaiting s' = awaiting s
    \<and> map_of (activeCalls s') c = None)"
  using assms
  by (auto simp: on_decline_def Let_def emit_def clear_timeout_def delete_conv
      split: option.splits)

theorem decline_of_active_call_witness:
  "map_of (activeCalls demo_active) demo_call_id
     = Some (demo_session\<lparr>status := Active, acceptedAt := Some 1000\<rparr>)
   \<and> status (demo_session\<lparr>status := Active, acceptedAt := Some 1000\<rparr>) = Active
   \<and> emitted (step (Decline ''s2'' demo_call_id (Some ''changed my mind'')) demo_active) =
       emitted demo_active @ [(Room ''s1'', CallDeclined demo_call_id ''changed my mind'')]
   \<and> messages (step (Decline ''s2'' demo_call_id (Some ''changed my mind'')) demo_active) = []
   \<and> map_of (activeCalls (step (Decline ''s2'' demo_call_id (Some ''changed my mind''))
         demo_active)) demo_call_id = None"
proof -
  have live: "map_of (activeCalls demo_active) demo_call_id
     = Some (demo_session\<lparr>status := Active, acceptedAt := Some 1000\<rparr>)"
    and act: "status (demo_session\<lparr>status := Active, acceptedAt := Some 1000\<rparr>) = Active"
    by (simp_all add: demo_active_eq)
  show ?thesis
    using live act decline_of_active_call [OF live act, of "''s2''" "Some ''changed my mind''"]
    by (simp add: Let_def demo_active_eq demo_session_def decline_reason_def)
qed

section \<open>Presence on disconnect\<close>

text \<open>
  C1, as the code has it: the disconnect handler does not compare the disconnecting
  socket with the socket on record. When a socket that has announced the user id \<open>u\<close>
  disconnects, the \<^verbatim>\<open>onlineUsers\<close> entry of \<open>u\<close> is removed, whichever socket it
  names, and the offline \<^verbatim>\<open>user:status\<close> event for \<open>u\<close> is the first event of the
  handler, sent to all clients.
\<close>

theorem disconnect_clears_presence:
  assumes "socketUserId s sock = Some u" "u \<noteq> ''''"
  shows "(let s' = step (Disconnect sock now) s in
      onlineUsers s' = (onlineUsers s)(u := None)
    \<and> take (Suc (length (emitted s))) (emitted s') = emitted s @ [(All, UserStatus u False)])"
proof -
  let ?p = "disconnect_presence sock s"
  have p: "onlineUsers ?p = (onlineUsers s)(u := None)"
          "emitted ?p = emitted s @ [(All, UserStatus u False)]"
    using assms by (simp_all add: disconnect_presence_def emit_def)
  obtain xs where xs: "emitted (fold (disconnect_call sock now) (activeCalls ?p) ?p) = emitted ?p @ xs"
    using fold_disconnect_emitted by blast
  show ?thesis
    by (simp add: on_disconnect_def Let_def fold_disconnect_same p xs)
qed

theorem disconnect_clears_presence_witness:
  "socketUserId (run [UserOnline ''c1'' ''u'', UserOnline ''c2'' ''u''] init) ''c1'' = Some ''u''
   \<and> ''u'' \<noteq> ''''
   \<and> onlineUsers (run [UserOnline ''c1'' ''u'', UserOnline ''c2'' ''u''] init) ''u'' = Some ''c2''
   \<and> onlineUsers (step (Disconnect ''c1'' 7) (run [UserOnline ''c1'' ''u'', UserOnline ''c2'' ''u''] init)) ''u''
       = None
   \<and> take 3 (emitted (step (Disconnect ''c1'' 7)
                (run [UserOnline ''c1'' ''u'', UserOnline ''c2'' ''u''] init)))
       = [(All, UserStatus ''u'' True), (All, UserStatus ''u'' True), (All, UserStatus ''u'' False)]"
proof -
  let ?s = "run [UserOnline ''c1'' ''u'', UserOnline ''c2'' ''u''] init"
  have v: "socketUserId ?s ''c1'' = Some ''u''" "''u'' \<noteq> ''''"
    "onlineUsers ?s ''u'' = Some ''c2''"
    "emitted ?s = [(All, UserStatus ''u'' True), (All, UserStatus ''u'' True)]"
    by (simp_all add: run_def init_def on_user_online_def emit_def)
  show ?thesis
    using v disconnect_clears_presence [OF v(1) v(2), of 7]
    by (simp add: Let_def numeral_3_eq_3)
qed

text \<open>
  User \<open>u\<close> registers on socket \<open>c1\<close>, then on \<open>c2\<close>; then \<open>c1\<close> disconnects. The entry
  that named \<open>c2\<close> is gone and the offline event was broadcast.
\<close>

theorem stale_disconnect_counterexample:
  "onlineUsers (run [UserOnline ''c1'' ''u'', UserOnline ''c2'' ''u''] init) ''u'' = Some ''c2''
   \<and> onlineUsers (run [UserOnline ''c1'' ''u'', UserOnline ''c2'' ''u'', Disconnect ''c1'' 7] init) ''u''
        \<noteq> Some ''c2''
   \<and> (All, UserStatus ''u'' False)
        \<in> set (emitted (run [UserOnline ''c1'' ''u'', UserOnline ''c2'' ''u'', Disconnect ''c1'' 7] init))"
  by (simp add: run_def init_def on_user_online_def on_disconnect_def disconnect_presence_def
      emit_def Let_def)

section \<open>A second create for the same call id\<close>

text \<open>
  C3, as the code has it: the initiate handler never looks whether its call id is
  already in \<^verbatim>\<open>activeCalls\<close>. With the receiver online, the session built from this
  request is stored under the call id, replacing whatever was there; the other
  sessions stay. A new 30-second timer is armed beside those already armed, its
  handle takes the place of the recorded one, and caller and receiver are notified.
  No failure is raised.
\<close>

theorem initiate_overwrites_session:
  assumes "onlineUsers s receiverId = Some receiverSock" "receiverSock \<noteq> ''''"
  shows "(let c = mk_callId callerId receiverId now;
              s' = step (Initiate sock receiverId callerId info now) s
          in map_of (activeCalls s') c =
               Some \<lparr> call_id = c, caller = callerId, receiver = receiverId,
                      callerSocketId = sock, receiverSocketId = receiverSock,
                      status = Ringing, startedAt = now, callerInfo = info, acceptedAt = None \<rparr>
           \<and> (\<forall>x. x \<noteq> c \<longrightarrow> map_of (activeCalls s') x = map_of (activeCalls s) x)
           \<and> callTimeouts s' c = Some (nextTimer s)
           \<and> armed s' = (armed s)(nextTimer s \<mapsto> (c, 30000))
           \<and> emitted s' = emitted s @ [(Socket sock, CallInitiated c receiverId),
                                        (Room receiverSock, CallIncoming c info)])"
  using assms
  by (simp add: on_initiate_def Let_def emit_def update_conv missedCallDelay_def)

theorem initiate_overwrites_session_witness:
  "onlineUsers demo_ringing ''u2'' = Some ''s2'' \<and> ''s2'' \<noteq> ''''
   \<and> map_of (activeCalls demo_ringing) demo_call_id = Some demo_session
   \<and> map_of (activeCalls (step (Initiate ''s3'' ''u2'' ''u1'' ''other'' 5) demo_ringing)) demo_call_id
       = Some (demo_session\<lparr>callerSocketId := ''s3'', callerInfo := ''other''\<rparr>)
   \<and> callTimeouts (step (Initiate ''s3'' ''u2'' ''u1'' ''other'' 5) demo_ringing) demo_call_id = Some 1
   \<and> armed (step (Initiate ''s3'' ''u2'' ''u1'' ''other'' 5) demo_ringing)
       = [0 \<mapsto> (demo_call_id, 30000), 1 \<mapsto> (demo_call_id, 30000)]"
proof -
  have v: "onlineUsers demo_ringing ''u2'' = Some ''s2''" "''s2'' \<noteq> ''''"
    "map_of (activeCalls demo_ringing) demo_call_id = Some demo_session"
    by (simp_all add: demo_ringing_eq)
  show ?thesis
    using v initiate_overwrites_session [OF v(1) v(2), of "''u1''" 5 "''s3''" "''other''"]
    by (simp add: Let_def demo_call_id_def [symmetric] demo_session_def demo_ringing_eq)
qed

text \<open>
  While the demo call rings, a second socket sends an initiate with the same caller,
  receiver and millisecond. The stored session is no longer the first one.
\<close>

theorem duplicate_create_counterexample:
  "map_of (activeCalls demo_ringing) demo_call_id = Some demo_session
   \<and> map_of (activeCalls (step (Initiate ''s3'' ''u2'' ''u1'' ''other'' 5) demo_ringing))
        demo_call_id \<noteq> Some demo_session"
  by (simp add: demo_ringing_eq on_initiate_def emit_def Let_def demo_call_id_def [symmetric]
      demo_session_def)

section \<open>Order of teardown and history writes\<close>

lemma noop_without_session:
  assumes "map_of (activeCalls s) c = None"
  shows "step (Accept sock c now) s = s" "step (Decline sock c r) s = s" "step (End sock c d now) s = s"
  using assms by (simp_all add: on_accept_def on_decline_def on_end_def)

text \<open>
  C2, as the code has it: the end handler disarms the timeout before it awaits the
  first write, but leaves the session in \<^verbatim>\<open>activeCalls\<close> while it waits; the timeout
  callback of a ringing call leaves both the session and the \<^verbatim>\<open>callTimeouts\<close> entry
  while it waits. Once the handler has finished, whatever the outcome of its writes,
  the session is absent (for the timeout callback the \<^verbatim>\<open>callTimeouts\<close> entry too), and
  an accept, decline or end for the same call id then changes nothing.
\<close>

theorem session_removed_after_writes:
  assumes "map_of (activeCalls s) c = Some k"
  shows "(let s1 = step (End sock c d now) s in
            callTimeouts s1 c = None
          \<and> (\<forall>h. callTimeouts s c = Some h \<longrightarrow> armed s1 h = None)
          \<and> activeCalls s1 = activeCalls s
          \<and> awaiting s1 (nextTask s) \<noteq> None)
       \<and> (let s2 = run [End sock c d now, Settled (nextTask s) ok1 n1, Settled (nextTask s) ok2 n2] s in
            map_of (activeCalls s2) c = None
          \<and> awaiting s2 (nextTask s) = None
          \<and> step (Accept sock2 c n3) s2 = s2
          \<and> step (Decline sock2 c r) s2 = s2
          \<and> step (End sock2 c d2 n3) s2 = s2)
       \<and> (\<forall>h dl. armed s h = Some (c, dl) \<and> status k = Ringing \<longrightarrow>
            (let s1 = step (TimerFired h now) s in
               activeCalls s1 = activeCalls s
             \<and> callTimeouts s1 = callTimeouts s
             \<and> armed s1 h = None
             \<and> awaiting s1 (nextTask s) \<noteq> None)
          \<and> (let s2 = run [TimerFired h now, Settled (nextTask s) ok1 n1,
                           Settled (nextTask s) ok2 n2] s in
               map_of (activeCalls s2) c = None
             \<and> callTimeouts s2 c = None
             \<and> awaiting s2 (nextTask s) = None
             \<and> step (Accept sock2 c n3) s2 = s2
             \<and> step (Decline sock2 c r) s2 = s2
             \<and> step (End sock2 c d2 n3) s2 = s2))"
proof -
  have a: "(let s1 = step (End sock c d now) s in
            callTimeouts s1 c = None
          \<and> (\<forall>h. callTimeouts s c = Some h \<longrightarrow> armed s1 h = None)
          \<and> activeCalls s1 = activeCalls s
          \<and> awaiting s1 (nextTask s) \<noteq> None)"
    using assms
    by (auto simp: on_end_def Let_def suspend_def clear_timeout_def split: option.splits)
  have gone: "map_of (activeCalls (run [End sock c d now, Settled (nextTask s) ok1 n1,
                Settled (nextTask s) ok2 n2] s)) c = None"
    and fin: "awaiting (run [End sock c d now, Settled (nextTask s) ok1 n1,
                Settled (nextTask s) ok2 n2] s) (nextTask s) = None"
    unfolding end_then_settled [OF assms] by (simp_all add: Let_def delete_conv)
  have b: "(let s2 = run [End sock c d now, Settled (nextTask s) ok1 n1, Settled (nextTask s) ok2 n2] s in
            map_of (activeCalls s2) c = None
          \<and> awaiting s2 (nextTask s) = None
          \<and> step (Accept sock2 c n3) s2 = s2
          \<and> step (Decline sock2 c r) s2 = s2
          \<and> step (End sock2 c d2 n3) s2 = s2)"
    unfolding Let_def using gone fin noop_without_session [OF gone] by blast
  have t: "(let s1 = step (TimerFired h now) s in
               activeCalls s1 = activeCalls s
             \<and> callTimeouts s1 = callTimeouts s
             \<and> armed s1 h = None
             \<and> awaiting s1 (nextTask s) \<noteq> None)
          \<and> (let s2 = run [TimerFired h now, Settled (nextTask s) ok1 n1,
                           Settled (nextTask s) ok2 n2] s in
               map_of (activeCalls s2) c = None
             \<and> callTimeouts s2 c = None
             \<and> awaiting s2 (nextTask s) = None
             \<and> step (Accept sock2 c n3) s2 = s2
             \<and> step (Decline sock2 c r) s2 = s2
             \<and> step (End sock2 c d2 n3) s2 = s2)"
    if ar: "armed s h = Some (c, dl)" and r: "status k = Ringing" for h dl
  proof -
    have t1: "(let s1 = step (TimerFired h now) s in
               activeCalls s1 = activeCalls s
             \<and> callTimeouts s1 = callTimeouts s
             \<and> armed s1 h = None
             \<and> awaiting s1 (nextTask s) \<noteq> None)"
      using ar r assms by (simp add: on_timer_def Let_def suspend_def)
    have gone': "map_of (activeCalls (run [TimerFired h now, Settled (nextTask s) ok1 n1,
                Settled (nextTask s) ok2 n2] s)) c = None"
      and rest: "callTimeouts (run [TimerFired h now, Settled (nextTask s) ok1 n1,
                Settled (nextTask s) ok2 n2] s) c = None"
         "awaiting (run [TimerFired h now, Settled (nextTask s) ok1 n1,
                Settled (nextTask s) ok2 n2] s) (nextTask s) = None"
      unfolding timer_then_settled [OF ar assms r] by (simp_all add: delete_conv)
    show ?thesis
      unfolding Let_def using t1 gone' rest noop_without_session [OF gone']
      unfolding Let_def by blast
  qed
  from a b t show ?thesis by blast
qed

theorem session_removed_after_writes_witness:
  "map_of (activeCalls demo_ringing) demo_call_id = Some demo_session
   \<and> armed demo_ringing 0 = Some (demo_call_id, 30000)
   \<and> status demo_session = Ringing
   \<and> callTimeouts (step (End ''s1'' demo_call_id None 9000) demo_ringing) demo_call_id = None
   \<and> armed (step (End ''s1'' demo_call_id None 9000) demo_ringing) 0 = None
   \<and> map_of (activeCalls (step (End ''s1'' demo_call_id None 9000) demo_ringing)) demo_call_id
       = Some demo_session
   \<and> map_of (activeCalls (run [End ''s1'' demo_call_id None 9000, Settled 0 True 9001,
         Settled 0 True 9002] demo_ringing)) demo_call_id = None
   \<and> map_of (activeCalls (step (TimerFired 0 9000) demo_ringing)) demo_call_id = Some demo_session
   \<and> callTimeouts (step (TimerFired 0 9000) demo_ringing) demo_call_id = Some 0
   \<and> map_of (activeCalls (run [TimerFired 0 9000, Settled 0 True 9001, Settled 0 True 9002]
         demo_ringing)) demo_call_id = None"
proof -
  have v: "map_of (activeCalls demo_ringing) demo_call_id = Some demo_session"
    "armed demo_ringing 0 = Some (demo_call_id, 30000)"
    "status demo_session = Ringing"
    "callTimeouts demo_ringing demo_call_id = Some 0"
    "nextTask demo_ringing = 0"
    by (simp_all add: demo_ringing_eq demo_session_def)
  show ?thesis
    using v session_removed_after_writes [OF v(1), of "''s1''" None 9000 True 9001 True 9002]
    by (simp add: Let_def)
qed

text \<open>
  During the active demo call both parties hang up: the second
  \<^verbatim>\<open>audio:call:end\<close> arrives while the first handler waits for its write. The
  session is still stored, a second handler starts, and in the end four call
  messages are written and the caller's socket receives \<^verbatim>\<open>audio:call:ended\<close> twice.
\<close>

theorem reentrant_end_counterexample:
  "map_of (activeCalls (step (End ''s1'' demo_call_id (Some 42) 50000) demo_active)) demo_call_id
     = Some (demo_session\<lparr>status := Active, acceptedAt := Some 1000\<rparr>)
   \<and> awaiting (step (End ''s2'' demo_call_id (Some 42) 50001)
        (step (End ''s1'' demo_call_id (Some 42) 50000) demo_active)) 1 \<noteq> None
   \<and> length (messages (run [End ''s1'' demo_call_id (Some 42) 50000,
                             End ''s2'' demo_call_id (Some 42) 50001,
                             Settled 0 True 50002, Settled 1 True 50003,
                             Settled 0 True 50004, Settled 1 True 50005] demo_active)) = 4
   \<and> emitted (run [End ''s1'' demo_call_id (Some 42) 50000,
                    End ''s2'' demo_call_id (Some 42) 50001,
                    Settled 0 True 50002, Settled 1 True 50003,
                    Settled 0 True 50004, Settled 1 True 50005] demo_active) =
       emitted demo_active @
         [(Room ''s1'', CallEnded demo_call_id 42 (JDate 1000) (Some ''u1'')),
          (Room ''s2'', CallEnded demo_call_id 42 (JDate 1000) (Some ''u1'')),
          (Room ''s1'', CallEnded demo_call_id 42 (JDate 1000) (Some ''u2'')),
          (Room ''s2'', CallEnded demo_call_id 42 (JDate 1000) (Some ''u2''))]"
proof -
  have one: "step (End ''s1'' demo_call_id (Some 42) 50000) demo_active =
    demo_active\<lparr>awaiting := [0 \<mapsto> EndFirst ''s1'' demo_call_id
        (demo_session\<lparr>status := Active, acceptedAt := Some 1000\<rparr>) 42 (JDate 1000) Completed
        (call_message ''u1'' ''u2'' 42 Completed 50000)], nextTask := 1\<rparr>"
    by (simp add: demo_active_eq on_end_def Let_def suspend_def clear_timeout_def
        final_duration_def was_accepted_def call_outcome_of_def demo_session_def)
  have two: "step (End ''s2'' demo_call_id (Some 42) 50001)
       (step (End ''s1'' demo_call_id (Some 42) 50000) demo_active) =
    demo_active\<lparr>awaiting := [0 \<mapsto> EndFirst ''s1'' demo_call_id
        (demo_session\<lparr>status := Active, acceptedAt := Some 1000\<rparr>) 42 (JDate 1000) Completed
        (call_message ''u1'' ''u2'' 42 Completed 50000),
        1 \<mapsto> EndFirst ''s2'' demo_call_id
        (demo_session\<lparr>status := Active, acceptedAt := Some 1000\<rparr>) 42 (JDate 1000) Completed
        (call_message ''u1'' ''u2'' 42 Completed 50001)], nextTask := 2\<rparr>"
    unfolding one
    by (simp add: demo_active_eq on_end_def Let_def suspend_def clear_timeout_def
        final_duration_def was_accepted_def call_outcome_of_def demo_session_def)
  have three: "run [Settled 0 True 50002, Settled 1 True 50003] (step (End ''s2'' demo_call_id (Some 42) 50001)
       (step (End ''s1'' demo_call_id (Some 42) 50000) demo_active)) =
    demo_active\<lparr>awaiting := [0 \<mapsto> EndSecond ''s1'' demo_call_id
        (demo_session\<lparr>status := Active, acceptedAt := Some 1000\<rparr>) 42 (JDate 1000)
        (call_message ''u2'' ''u1'' 42 Completed 50002),
        1 \<mapsto> EndSecond ''s2'' demo_call_id
        (demo_session\<lparr>status := Active, acceptedAt := Some 1000\<rparr>) 42 (JDate 1000)
        (call_message ''u2'' ''u1'' 42 Completed 50003)], nextTask := 2,
        messages := [call_message ''u1'' ''u2'' 42 Completed 50000, call_message ''u1'' ''u2'' 42 Completed 50001]\<rparr>"
    unfolding two
    apply (simp add: run_def on_settled_def demo_session_def)
    apply (rule server.equality)
    apply (simp_all add: demo_active_eq fun_upd_twist)
    done
  have four: "run [Settled 0 True 50004, Settled 1 True 50005] (run [Settled 0 True 50002, Settled 1 True 50003] (step (End ''s2'' demo_call_id (Some 42) 50001)
       (step (End ''s1'' demo_call_id (Some 42) 50000) demo_active))) =
    demo_active\<lparr>awaiting := Map.empty, nextTask := 2,
        messages := [call_message ''u1'' ''u2'' 42 Completed 50000, call_message ''u1'' ''u2'' 42 Completed 50001,
                     call_message ''u2'' ''u1'' 42 Completed 50002, call_message ''u2'' ''u1'' 42 Completed 50003],
        emitted := emitted demo_active @
           [(Room ''s1'', CallEnded demo_call_id 42 (JDate 1000) (Some ''u1'')),
            (Room ''s2'', CallEnded demo_call_id 42 (JDate 1000) (Some ''u1'')),
            (Room ''s1'', CallEnded demo_call_id 42 (JDate 1000) (Some ''u2'')),
            (Room ''s2'', CallEnded demo_call_id 42 (JDate 1000) (Some ''u2''))],
        activeCalls := []\<rparr>"
    unfolding three
    apply (simp add: run_def on_settled_def demo_session_def end_finish_def Let_def emit_def)
    apply (rule server.equality)
    apply (simp_all add: demo_active_eq)
    done
  have split: "run [End ''s1'' demo_call_id (Some 42) 50000,
                             End ''s2'' demo_call_id (Some 42) 50001,
                             Settled 0 True 50002, Settled 1 True 50003,
                             Settled 0 True 50004, Settled 1 True 50005] demo_active
     = run [Settled 0 True 50004, Settled 1 True 50005] (run [Settled 0 True 50002, Settled 1 True 50003] (step (End ''s2'' demo_call_id (Some 42) 50001)
       (step (End ''s1'' demo_call_id (Some 42) 50000) demo_active)))"
    by (simp add: run_def)
  have c1: "map_of (activeCalls (step (End ''s1'' demo_call_id (Some 42) 50000) demo_active))
      demo_call_id = Some (demo_session\<lparr>status := Active, acceptedAt := Some 1000\<rparr>)"
    by (simp only: one) (simp add: demo_active_eq)
  have c2: "awaiting (step (End ''s2'' demo_call_id (Some 42) 50001)
        (step (End ''s1'' demo_call_id (Some 42) 50000) demo_active)) 1 \<noteq> None"
    by (simp only: two) simp
  have c3: "length (messages (run [End ''s1'' demo_call_id (Some 42) 50000,
                             End ''s2'' demo_call_id (Some 42) 50001,
                             Settled 0 True 50002, Settled 1 True 50003,
                             Settled 0 True 50004, Settled 1 True 50005] demo_active)) = 4"
    by (simp only: split four) simp
  have c4: "emitted (run [End ''s1'' demo_call_id (Some 42) 50000,
                    End ''s2'' demo_call_id (Some 42) 50001,
                    Settled 0 True 50002, Settled 1 True 50003,
                    Settled 0 True 50004, Settled 1 True 50005] demo_active) =
       emitted demo_active @
         [(Room ''s1'', CallEnded demo_call_id 42 (JDate 1000) (Some ''u1'')),
          (Room ''s2'', CallEnded demo_call_id 42 (JDate 1000) (Some ''u1'')),
          (Room ''s1'', CallEnded demo_call_id 42 (JDate 1000) (Some ''u2'')),
          (Room ''s2'', CallEnded demo_call_id 42 (JDate 1000) (Some ''u2''))]"
    by (simp only: split four) simp
  from c1 c2 c3 c4 show ?thesis by blast
qed

section \<open>Accept or decline before the timeout\<close>

lemma accept_closes_timeout:
  assumes "map_of (activeCalls s) c = Some k" "\<forall>t k'. awaiting s t = Some k' \<longrightarrow> \<not> missed_for c k'"
  shows "timeout_closed c (step (Accept sock c now) s)"
    and "missed_events c (step (Accept sock c now) s) = missed_events c s"
  using assms
  by (auto simp: timeout_closed_def missed_events_def on_accept_def Let_def emit_def update_conv
      clear_timeout_def split: option.splits)

lemma decline_closes_timeout:
  assumes "map_of (activeCalls s) c = Some k" "\<forall>t k'. awaiting s t = Some k' \<longrightarrow> \<not> missed_for c k'"
  shows "timeout_closed c (step (Decline sock c r) s)"
    and "missed_events c (step (Decline sock c r) s) = missed_events c s"
  using assms
  by (auto simp: timeout_closed_def missed_events_def on_decline_def Let_def emit_def delete_conv
      clear_timeout_def split: option.splits)

lemma resolve_disarms:
  assumes "map_of (activeCalls s) c = Some k" "callTimeouts s c = Some h" "h < nextTimer s"
    and "e = Accept sock c now \<or> e = Decline sock c r"
  shows "armed (step e s) h = None \<and> h < nextTimer (step e s)"
  using assms
  by (auto simp: on_accept_def on_decline_def Let_def emit_def clear_timeout_def)

text \<open>
  C6: an accept or a decline is processed for a live call whose timeout callback has
  not started yet (the timer has not fired, so none of its continuations is waiting).
  Then the timer recorded for the call is disarmed and is never armed again, whatever
  events follow, so its callback never runs: a fire event for it changes nothing.
  And as long as no later initiate generates the same call id again, no
  \<^verbatim>\<open>audio:call:missed\<close> event for the call is added to the emitted ones, and no
  timeout callback for the call ever waits for a write, which is the only way the
  timeout path writes a message.
\<close>

theorem resolved_call_timeout_never_fires:
  assumes live: "map_of (activeCalls s) c = Some k"
    and rec: "callTimeouts s c = Some h"
    and alloc: "h < nextTimer s"
    and pending: "\<forall>t k'. awaiting s t = Some k' \<longrightarrow> \<not> missed_for c k'"
    and ev: "e = Accept sock c now \<or> e = Decline sock c r"
  shows "armed (run es (step e s)) h = None
       \<and> step (TimerFired h n) (run es (step e s)) = run es (step e s)
       \<and> ((\<forall>x\<in>set es. \<not> initiates c x) \<longrightarrow>
             missed_events c (run es (step e s)) = missed_events c s
           \<and> (\<forall>t k'. awaiting (run es (step e s)) t = Some k' \<longrightarrow> \<not> missed_for c k'))"
proof -
  have d: "armed (step e s) h = None \<and> h < nextTimer (step e s)"
    by (rule resolve_disarms [OF live rec alloc ev])
  then have never: "armed (run es (step e s)) h = None"
    using run_disarmed [of "step e s" h es] by simp
  then have noop: "step (TimerFired h n) (run es (step e s)) = run es (step e s)"
    by (simp add: on_timer_def)
  have closed: "timeout_closed c (step e s)" and same: "missed_events c (step e s) = missed_events c s"
    using ev accept_closes_timeout [OF live pending] decline_closes_timeout [OF live pending]
    by auto
  have rest: "missed_events c (run es (step e s)) = missed_events c s
           \<and> (\<forall>t k'. awaiting (run es (step e s)) t = Some k' \<longrightarrow> \<not> missed_for c k')"
    if "\<forall>x\<in>set es. \<not> initiates c x"
    using run_timeout_closed [OF closed that] same by (simp add: timeout_closed_def)
  from never noop rest show ?thesis by blast
qed

theorem resolved_call_timeout_never_fires_witness:
  "map_of (activeCalls demo_ringing) demo_call_id = Some demo_session
   \<and> callTimeouts demo_ringing demo_call_id = Some 0
   \<and> 0 < nextTimer demo_ringing
   \<and> awaiting demo_ringing = Map.empty
   \<and> armed (run [TimerFired 0 30005, Settled 0 True 30006, Disconnect ''s3'' 30007]
        (step (Accept ''s2'' demo_call_id 1000) demo_ringing)) 0 = None
   \<and> missed_events demo_call_id (run [TimerFired 0 30005, Settled 0 True 30006, Disconnect ''s3'' 30007]
        (step (Accept ''s2'' demo_call_id 1000) demo_ringing)) = []"
proof -
  have v: "map_of (activeCalls demo_ringing) demo_call_id = Some demo_session"
    "callTimeouts demo_ringing demo_call_id = Some 0"
    "0 < nextTimer demo_ringing"
    "\<forall>t k'. awaiting demo_ringing t = Some k' \<longrightarrow> \<not> missed_for demo_call_id k'"
    by (simp_all add: demo_ringing_eq)
  have i: "\<forall>x\<in>set [TimerFired 0 30005, Settled 0 True 30006, Disconnect ''s3'' 30007].
         \<not> initiates demo_call_id x"
    by simp
  have m: "missed_events demo_call_id demo_ringing = []" "awaiting demo_ringing = Map.empty"
    by (simp_all add: missed_events_def demo_ringing_eq)
  have e: "Accept ''s2'' demo_call_id 1000 = Accept ''s2'' demo_call_id 1000
           \<or> Accept ''s2'' demo_call_id 1000 = Decline ''s2'' demo_call_id None"
    by simp
  show ?thesis
    using v i m resolved_call_timeout_never_fires [OF v e,
        of "[TimerFired 0 30005, Settled 0 True 30006, Disconnect ''s3'' 30007]" 0]
    by simp
qed

end
